theory Spec2Isabelle
  imports Main "HOL-Library.Sublist"
begin

section \<open>Python values and slicing\<close>

text \<open>
  The module \<^verbatim>\<open>comb.py\<close> is dynamically typed. The values that flow through it are
  modelled by the datatypes below. A Python \<^verbatim>\<open>str\<close> is a \<^typ>\<open>string\<close>, a Python
  \<^verbatim>\<open>int\<close> is an \<^typ>\<open>int\<close>.
\<close>

datatype error = TypeError | IndexError | ValueError | AttributeError | UserError

text \<open>\<^verbatim>\<open>class Input: s: str; i: int\<close> and \<^verbatim>\<open>class Span: s: str; i: int; j: int\<close>.\<close>

datatype Input = Input string int

datatype Span = Span string int int

fun Input_s :: "Input \<Rightarrow> string" where
  "Input_s (Input s i) = s"

fun Input_i :: "Input \<Rightarrow> int" where
  "Input_i (Input s i) = i"

text \<open>
  The slice \<^verbatim>\<open>xs[a:b]\<close> of Python: a negative bound counts from the end, and both bounds
  are clamped to the range of the sequence.
\<close>

definition py_slice :: "'a list \<Rightarrow> int \<Rightarrow> int \<Rightarrow> 'a list" where
  "py_slice xs a b =
     (let n = int (length xs);
          start = (if a < 0 then max (a + n) 0 else min a n);
          stop = (if b < 0 then max (b + n) 0 else min b n)
      in take (nat (stop - start)) (drop (nat start) xs))"

section \<open>Cursor and span\<close>

text \<open>\<^verbatim>\<open>Input.__bool__\<close>: \<^verbatim>\<open>return self.i < len(self.s)\<close>.\<close>

fun Input_bool :: "Input \<Rightarrow> bool" where
  "Input_bool (Input s i) = (i < int (length s))"

text \<open>\<^verbatim>\<open>Input.curr\<close>: \<^verbatim>\<open>return self.s[self.i : self.i + n]\<close>.\<close>

fun Input_curr :: "Input \<Rightarrow> int \<Rightarrow> string" where
  "Input_curr (Input s i) n = py_slice s i (i + n)"

text \<open>\<^verbatim>\<open>Input.advance\<close>: \<^verbatim>\<open>return Input(self.s, self.i + n)\<close>.\<close>

fun Input_advance :: "Input \<Rightarrow> int \<Rightarrow> Input" where
  "Input_advance (Input s i) n = Input s (i + n)"

text \<open>
  The operand of the two \<^verbatim>\<open>span\<close> methods is any Python object: a cursor, a span, or
  something else (which has no attribute \<^verbatim>\<open>i\<close> and is neither a \<^verbatim>\<open>Span\<close> nor an
  \<^verbatim>\<open>Input\<close>).
\<close>

datatype operand = OInput Input | OSpan Span | OOther

text \<open>
  \<^verbatim>\<open>Input.span\<close>: \<^verbatim>\<open>return Span(self.s, self.i, other.i)\<close>. The attribute \<^verbatim>\<open>i\<close> of a
  cursor is its offset, the attribute \<^verbatim>\<open>i\<close> of a span is its start.
\<close>

fun Input_span :: "Input \<Rightarrow> operand \<Rightarrow> error + Span" where
  "Input_span (Input s i) (OInput (Input s2 i2)) = Inr (Span s i i2)"
| "Input_span (Input s i) (OSpan (Span s2 i2 j2)) = Inr (Span s i i2)"
| "Input_span (Input s i) OOther = Inl AttributeError"

text \<open>\<^verbatim>\<open>Span.content\<close>: \<^verbatim>\<open>return self.s[self.i : self.j]\<close>.\<close>

fun Span_content :: "Span \<Rightarrow> string" where
  "Span_content (Span s i j) = py_slice s i j"

text \<open>\<^verbatim>\<open>Span.span\<close>, with its \<^verbatim>\<open>isinstance\<close> dispatch and the final \<^verbatim>\<open>raise TypeError\<close>.\<close>

fun Span_span :: "Span \<Rightarrow> operand \<Rightarrow> error + Span" where
  "Span_span (Span s i j) (OSpan (Span s2 i2 j2)) = Inr (Span s (min i i2) (max j j2))"
| "Span_span (Span s i j) (OInput (Input s2 i2)) = Inr (Span s (min i i2) (max j i2))"
| "Span_span (Span s i j) OOther = Inl TypeError"

text \<open>The invariant of a span in the data model: its start is not after its end.\<close>

fun Span_ordered :: "Span \<Rightarrow> bool" where
  "Span_ordered (Span s i j) = (i \<le> j)"

section \<open>Parsers\<close>

text \<open>
  The payload of a successful parse: \<^verbatim>\<open>None\<close>, a truth value, an integer, a string, a
  tuple, a list or a \<^verbatim>\<open>Span\<close>.
\<close>

datatype val =
    VNone
  | VBool bool
  | VInt int
  | VStr string
  | VTuple "val list"
  | VList "val list"
  | VSpan Span

text \<open>
  What the function wrapped by a \<^verbatim>\<open>Parser\<close> returns: \<^verbatim>\<open>None\<close>, \<^verbatim>\<open>False\<close> (only
  \<^verbatim>\<open>negate\<close> does), or a pair \<^verbatim>\<open>(value, cursor)\<close>. A call may also raise (\<open>Inl\<close>) or
  never return (\<open>None\<close> of the option type).
\<close>

datatype result = RNone | RFalse | ROk val Input

type_synonym outcome = "error + result"

type_synonym parser = "Input \<Rightarrow> outcome option"

abbreviation returns :: "result \<Rightarrow> outcome option" where
  "returns r \<equiv> Some (Inr r)"

abbreviation raises :: "error \<Rightarrow> outcome option" where
  "raises e \<equiv> Some (Inl e)"

text \<open>The truth value Python gives to a parser's result in \<^verbatim>\<open>if r := self(s)\<close>.\<close>

fun truthy :: "result \<Rightarrow> bool" where
  "truthy RNone = False"
| "truthy RFalse = False"
| "truthy (ROk x s) = True"

definition succeeds :: "outcome option \<Rightarrow> bool" where
  "succeeds c = (case c of Some (Inr r) \<Rightarrow> truthy r | _ \<Rightarrow> False)"

definition fails :: "outcome option \<Rightarrow> bool" where
  "fails c = (case c of Some (Inr r) \<Rightarrow> \<not> truthy r | _ \<Rightarrow> False)"

text \<open>The truth value of a payload, as \<^verbatim>\<open>if p(x)\<close> in \<^verbatim>\<open>Parser.pred\<close> takes it.\<close>

fun py_bool :: "val \<Rightarrow> bool" where
  "py_bool VNone = False"
| "py_bool (VBool b) = b"
| "py_bool (VInt n) = (n \<noteq> 0)"
| "py_bool (VStr cs) = (cs \<noteq> [])"
| "py_bool (VTuple xs) = (xs \<noteq> [])"
| "py_bool (VList xs) = (xs \<noteq> [])"
| "py_bool (VSpan sp) = True"

text \<open>
  \<^verbatim>\<open>tag(m)\<close>:
  \<^verbatim>\<open>if s.curr(len(m)) == m: return m, s.advance(len(m))\<close>, and \<^verbatim>\<open>None\<close> otherwise.
\<close>

definition tag :: "string \<Rightarrow> parser" where
  "tag m s =
     (if Input_curr s (int (length m)) = m
      then returns (ROk (VStr m) (Input_advance s (int (length m))))
      else returns RNone)"

text \<open>
  Operands of the combinators are coerced once, when the combinator is built, by
  \<^verbatim>\<open>parser(other)\<close>: a \<^verbatim>\<open>Parser\<close> is used as it is, a callable is wrapped, a string
  becomes \<^verbatim>\<open>tag(other)\<close>, anything else raises \<^verbatim>\<open>TypeError\<close>. The combinators below
  are the \<^verbatim>\<open>parse\<close> closures over operands that have been coerced.
\<close>

datatype arg = AParser parser | ACallable parser | AStr string | AOther

fun parser :: "arg \<Rightarrow> error + parser" where
  "parser (AParser p) = Inr p"
| "parser (ACallable f) = Inr f"
| "parser (AStr m) = Inr (tag m)"
| "parser AOther = Inl TypeError"

subsection \<open>Built-in functions applied to payloads\<close>

text \<open>\<^verbatim>\<open>xs[i]\<close> on a sequence: a negative index counts from the end, out of range raises.\<close>

definition py_item :: "'a list \<Rightarrow> int \<Rightarrow> error + 'a" where
  "py_item xs i =
     (let n = int (length xs); j = (if i < 0 then i + n else i)
      in if 0 \<le> j \<and> j < n then Inr (xs ! nat j) else Inl IndexError)"

text \<open>\<^verbatim>\<open>x[i]\<close> on a payload; \<^verbatim>\<open>None\<close>, numbers and spans are not subscriptable.\<close>

fun py_index :: "val \<Rightarrow> int \<Rightarrow> error + val" where
  "py_index (VTuple xs) i = py_item xs i"
| "py_index (VList xs) i = py_item xs i"
| "py_index (VStr cs) i = (case py_item cs i of Inl e \<Rightarrow> Inl e | Inr c \<Rightarrow> Inr (VStr [c]))"
| "py_index x i = Inl TypeError"

text \<open>The arguments that \<^verbatim>\<open>f(*x)\<close> passes: the elements of an iterable payload.\<close>

fun py_unpack :: "val \<Rightarrow> error + val list" where
  "py_unpack (VTuple xs) = Inr xs"
| "py_unpack (VList xs) = Inr xs"
| "py_unpack (VStr cs) = Inr (map (\<lambda>c. VStr [c]) cs)"
| "py_unpack x = Inl TypeError"

text \<open>\<^verbatim>\<open>len(x)\<close>.\<close>

fun py_len :: "val \<Rightarrow> error + val" where
  "py_len (VTuple xs) = Inr (VInt (int (length xs)))"
| "py_len (VList xs) = Inr (VInt (int (length xs)))"
| "py_len (VStr cs) = Inr (VInt (int (length cs)))"
| "py_len x = Inl TypeError"

text \<open>
  \<^verbatim>\<open>str.isspace\<close>, on the characters below code point 256: the controls 9 to 13 and 28
  to 31, the space, NEL (133) and the no-break space (160). The empty string is not
  whitespace; a payload that is no string raises \<^verbatim>\<open>TypeError\<close>.
\<close>

definition isspace :: "char \<Rightarrow> bool" where
  "isspace c =
     (let n = (of_char c :: nat)
      in (9 \<le> n \<and> n \<le> 13) \<or> (28 \<le> n \<and> n \<le> 32) \<or> n = 133 \<or> n = 160)"

fun str_isspace :: "val \<Rightarrow> error + val" where
  "str_isspace (VStr cs) = Inr (VBool (cs \<noteq> [] \<and> list_all isspace cs))"
| "str_isspace x = Inl TypeError"

subsection \<open>Methods of \<^verbatim>\<open>Parser\<close>\<close>

text \<open>\<^verbatim>\<open>__add__\<close>: \<^verbatim>\<open>return self(s) or other(s)\<close>.\<close>

definition Parser_add :: "parser \<Rightarrow> parser \<Rightarrow> parser" where
  "Parser_add self other s =
     (case self s of
        None \<Rightarrow> None
      | Some (Inl e) \<Rightarrow> raises e
      | Some (Inr (ROk x s1)) \<Rightarrow> returns (ROk x s1)
      | Some (Inr _) \<Rightarrow> other s)"

text \<open>
  \<^verbatim>\<open>__mul__\<close>: both results are tested by their truth value; falling off the end of
  the function returns \<^verbatim>\<open>None\<close>.
\<close>

definition Parser_mul :: "parser \<Rightarrow> parser \<Rightarrow> parser" where
  "Parser_mul self other s =
     (case self s of
        None \<Rightarrow> None
      | Some (Inl e) \<Rightarrow> raises e
      | Some (Inr (ROk x s1)) \<Rightarrow>
          (case other s1 of
             None \<Rightarrow> None
           | Some (Inl e) \<Rightarrow> raises e
           | Some (Inr (ROk y s2)) \<Rightarrow> returns (ROk (VTuple [x, y]) s2)
           | Some (Inr _) \<Rightarrow> returns RNone)
      | Some (Inr _) \<Rightarrow> returns RNone)"

text \<open>
  \<^verbatim>\<open>seq(*ps)\<close>: the \<^verbatim>\<open>for\<close> loop over the parsers. The test is \<^verbatim>\<open>is not None\<close>, so a
  result \<^verbatim>\<open>False\<close> reaches the unpacking \<^verbatim>\<open>x, s = r\<close>, which raises \<^verbatim>\<open>TypeError\<close>.
\<close>

fun seq_loop :: "parser list \<Rightarrow> val list \<Rightarrow> Input \<Rightarrow> outcome option" where
  "seq_loop [] xs s = returns (ROk (VTuple xs) s)"
| "seq_loop (p # ps) xs s =
     (case p s of
        None \<Rightarrow> None
      | Some (Inl e) \<Rightarrow> raises e
      | Some (Inr RNone) \<Rightarrow> returns RNone
      | Some (Inr RFalse) \<Rightarrow> raises TypeError
      | Some (Inr (ROk x s1)) \<Rightarrow> seq_loop ps (xs @ [x]) s1)"

definition seq :: "parser list \<Rightarrow> parser" where
  "seq ps s = seq_loop ps [] s"

text \<open>
  \<^verbatim>\<open>__pow__\<close>: \<^verbatim>\<open>seq(*(self for _ in range(n)))\<close> for \<^verbatim>\<open>n >= 0\<close>, \<^verbatim>\<open>ValueError\<close>
  otherwise (raised when the parser is built).
\<close>

definition Parser_pow :: "parser \<Rightarrow> int \<Rightarrow> error + parser" where
  "Parser_pow self n = (if n \<ge> 0 then Inr (seq (replicate (nat n) self)) else Inl ValueError)"

text \<open>
  \<^verbatim>\<open>__getitem__\<close>: the \<^verbatim>\<open>while\<close> loop, with the two lists it appends to. The loop may
  run forever, which is the value \<open>None\<close>.
\<close>

partial_function (option) getitem_loop ::
  "parser \<Rightarrow> parser \<Rightarrow> val list \<Rightarrow> val list \<Rightarrow> Input \<Rightarrow> outcome option" where
  "getitem_loop self other xs ys s =
     (case self s of
        None \<Rightarrow> None
      | Some (Inl e) \<Rightarrow> raises e
      | Some (Inr (ROk x s1)) \<Rightarrow>
          (case other s1 of
             None \<Rightarrow> None
           | Some (Inl e) \<Rightarrow> raises e
           | Some (Inr (ROk y s2)) \<Rightarrow> getitem_loop self other (xs @ [x]) (ys @ [y]) s2
           | Some (Inr _) \<Rightarrow> returns (ROk (VTuple [VList (xs @ [x]), VList ys]) s1))
      | Some (Inr _) \<Rightarrow> returns (ROk (VTuple [VList xs, VList ys]) s))"

definition Parser_getitem :: "parser \<Rightarrow> parser \<Rightarrow> parser" where
  "Parser_getitem self other s = getitem_loop self other [] [] s"

text \<open>\<^verbatim>\<open>map\<close>: \<^verbatim>\<open>return f(x), s\<close>; the function \<^verbatim>\<open>f\<close> may raise.\<close>

definition Parser_map :: "parser \<Rightarrow> (val \<Rightarrow> error + val) \<Rightarrow> parser" where
  "Parser_map self f s =
     (case self s of
        None \<Rightarrow> None
      | Some (Inl e) \<Rightarrow> raises e
      | Some (Inr (ROk x s1)) \<Rightarrow>
          (case f x of Inl e \<Rightarrow> raises e | Inr y \<Rightarrow> returns (ROk y s1))
      | Some (Inr _) \<Rightarrow> returns RNone)"

text \<open>\<^verbatim>\<open>map_star\<close>: \<^verbatim>\<open>return f(*x), s\<close>.\<close>

definition Parser_map_star :: "parser \<Rightarrow> (val list \<Rightarrow> error + val) \<Rightarrow> parser" where
  "Parser_map_star self f s =
     (case self s of
        None \<Rightarrow> None
      | Some (Inl e) \<Rightarrow> raises e
      | Some (Inr (ROk x s1)) \<Rightarrow>
          (case py_unpack x of
             Inl e \<Rightarrow> raises e
           | Inr args \<Rightarrow> (case f args of Inl e \<Rightarrow> raises e | Inr y \<Rightarrow> returns (ROk y s1)))
      | Some (Inr _) \<Rightarrow> returns RNone)"

text \<open>\<^verbatim>\<open>pred\<close> (the method): \<^verbatim>\<open>if p(x): return x, s1\<close>.\<close>

definition Parser_pred :: "parser \<Rightarrow> (val \<Rightarrow> error + val) \<Rightarrow> parser" where
  "Parser_pred self p s =
     (case self s of
        None \<Rightarrow> None
      | Some (Inl e) \<Rightarrow> raises e
      | Some (Inr (ROk x s1)) \<Rightarrow>
          (case p x of
             Inl e \<Rightarrow> raises e
           | Inr b \<Rightarrow> if py_bool b then returns (ROk x s1) else returns RNone)
      | Some (Inr _) \<Rightarrow> returns RNone)"

text \<open>\<^verbatim>\<open>index\<close>, \<^verbatim>\<open>left\<close>, \<^verbatim>\<open>right\<close>: \<^verbatim>\<open>self.map(lambda x: x[i])\<close>.\<close>

definition Parser_index :: "parser \<Rightarrow> int \<Rightarrow> parser" where
  "Parser_index self i = Parser_map self (\<lambda>x. py_index x i)"

definition Parser_left :: "parser \<Rightarrow> parser" where
  "Parser_left self = Parser_index self 0"

definition Parser_right :: "parser \<Rightarrow> parser" where
  "Parser_right self = Parser_index self 1"

text \<open>\<^verbatim>\<open>__lshift__\<close> and \<^verbatim>\<open>__rshift__\<close>.\<close>

definition Parser_lshift :: "parser \<Rightarrow> parser \<Rightarrow> parser" where
  "Parser_lshift self other = Parser_left (Parser_mul self other)"

definition Parser_rshift :: "parser \<Rightarrow> parser \<Rightarrow> parser" where
  "Parser_rshift self other = Parser_right (Parser_mul self other)"

text \<open>\<^verbatim>\<open>optional\<close>: \<^verbatim>\<open>return self(s) or (None, s)\<close>.\<close>

definition Parser_optional :: "parser \<Rightarrow> parser" where
  "Parser_optional self s =
     (case self s of
        None \<Rightarrow> None
      | Some (Inl e) \<Rightarrow> raises e
      | Some (Inr (ROk x s1)) \<Rightarrow> returns (ROk x s1)
      | Some (Inr _) \<Rightarrow> returns (ROk VNone s))"

text \<open>\<^verbatim>\<open>many0\<close>: the \<^verbatim>\<open>while\<close> loop with the list it appends to.\<close>

partial_function (option) many0_loop ::
  "parser \<Rightarrow> val list \<Rightarrow> Input \<Rightarrow> outcome option" where
  "many0_loop self xs s =
     (case self s of
        None \<Rightarrow> None
      | Some (Inl e) \<Rightarrow> raises e
      | Some (Inr (ROk x s1)) \<Rightarrow> many0_loop self (xs @ [x]) s1
      | Some (Inr _) \<Rightarrow> returns (ROk (VList xs) s))"

definition Parser_many0 :: "parser \<Rightarrow> parser" where
  "Parser_many0 self s = many0_loop self [] s"

text \<open>\<^verbatim>\<open>many1\<close>: \<^verbatim>\<open>self.many0().pred(len)\<close>.\<close>

definition Parser_many1 :: "parser \<Rightarrow> parser" where
  "Parser_many1 self = Parser_pred (Parser_many0 self) py_len"

text \<open>\<^verbatim>\<open>spanned\<close> and \<^verbatim>\<open>span\<close>.\<close>

definition Parser_spanned :: "parser \<Rightarrow> parser" where
  "Parser_spanned self s =
     (case self s of
        None \<Rightarrow> None
      | Some (Inl e) \<Rightarrow> raises e
      | Some (Inr (ROk x s1)) \<Rightarrow>
          (case Input_span s (OInput s1) of
             Inl e \<Rightarrow> raises e
           | Inr span \<Rightarrow> returns (ROk (VTuple [x, VSpan span]) s1))
      | Some (Inr _) \<Rightarrow> returns RNone)"

definition Parser_span :: "parser \<Rightarrow> parser" where
  "Parser_span self = Parser_right (Parser_spanned self)"

text \<open>\<^verbatim>\<open>stringed\<close> and \<^verbatim>\<open>string\<close>.\<close>

definition Parser_stringed :: "parser \<Rightarrow> parser" where
  "Parser_stringed self s =
     (case self s of
        None \<Rightarrow> None
      | Some (Inl e) \<Rightarrow> raises e
      | Some (Inr (ROk x s1)) \<Rightarrow>
          (case Input_span s (OInput s1) of
             Inl e \<Rightarrow> raises e
           | Inr span \<Rightarrow> returns (ROk (VTuple [x, VStr (Span_content span)]) s1))
      | Some (Inr _) \<Rightarrow> returns RNone)"

definition Parser_string :: "parser \<Rightarrow> parser" where
  "Parser_string self = Parser_right (Parser_stringed self)"

text \<open>
  \<^verbatim>\<open>negate\<close>: \<^verbatim>\<open>return (not self(s)) and (None, s)\<close>. When \<^verbatim>\<open>self(s)\<close> is true, the
  value of the expression is \<^verbatim>\<open>False\<close>.
\<close>

definition Parser_negate :: "parser \<Rightarrow> parser" where
  "Parser_negate self s =
     (case self s of
        None \<Rightarrow> None
      | Some (Inl e) \<Rightarrow> raises e
      | Some (Inr (ROk x s1)) \<Rightarrow> returns RFalse
      | Some (Inr _) \<Rightarrow> returns (ROk VNone s))"

subsection \<open>Primitive constructors\<close>

text \<open>\<^verbatim>\<open>one\<close>: \<^verbatim>\<open>if s: return s.curr(), s.advance()\<close>.\<close>

definition one :: parser where
  "one s =
     (if Input_bool s then returns (ROk (VStr (Input_curr s 1)) (Input_advance s 1))
      else returns RNone)"

text \<open>\<^verbatim>\<open>pred(p)\<close> (the function): \<^verbatim>\<open>one.pred(p)\<close>; \<^verbatim>\<open>space\<close> and \<^verbatim>\<open>ws\<close>.\<close>

definition pred :: "(val \<Rightarrow> error + val) \<Rightarrow> parser" where
  "pred p = Parser_pred one p"

definition space :: parser where
  "space = pred str_isspace"

definition ws :: parser where
  "ws = Parser_many0 space"

text \<open>\<^verbatim>\<open>__pos__\<close>: \<^verbatim>\<open>ws >> self\<close>; \<^verbatim>\<open>__neg__\<close>: \<^verbatim>\<open>self << ws\<close>.\<close>

definition Parser_pos :: "parser \<Rightarrow> parser" where
  "Parser_pos self = Parser_rshift ws self"

definition Parser_neg :: "parser \<Rightarrow> parser" where
  "Parser_neg self = Parser_lshift self ws"

text \<open>\<^verbatim>\<open>seqws\<close>: \<^verbatim>\<open>+seq(*(-parser(p) for p in ps))\<close>.\<close>

definition seqws :: "parser list \<Rightarrow> parser" where
  "seqws ps = Parser_pos (seq (map Parser_neg ps))"

text \<open>\<^verbatim>\<open>seqspanned\<close>: \<^verbatim>\<open>seqws(*ps).spanned().map(lambda x: (x[1], *x[0]))\<close>.\<close>

definition span_first :: "val \<Rightarrow> error + val" where
  "span_first x =
     (case py_index x 1 of
        Inl e \<Rightarrow> Inl e
      | Inr sp \<Rightarrow>
          (case py_index x 0 of
             Inl e \<Rightarrow> Inl e
           | Inr t \<Rightarrow> (case py_unpack t of Inl e \<Rightarrow> Inl e | Inr ts \<Rightarrow> Inr (VTuple (sp # ts)))))"

definition seqspanned :: "parser list \<Rightarrow> parser" where
  "seqspanned ps = Parser_map (Parser_spanned (seqws ps)) span_first"

text \<open>
  \<^verbatim>\<open>kw\<close>: \<^verbatim>\<open>+-tag(m).span()\<close>. The method call binds tighter than the unary operators,
  so the span is taken of the literal alone.
\<close>

definition kw :: "string \<Rightarrow> parser" where
  "kw m = Parser_pos (Parser_neg (Parser_span (tag m)))"

section \<open>Parsers built from the library\<close>

text \<open>
  The parsers that can be written with the module: one constructor for each primitive
  constructor and each combinator. \<^verbatim>\<open>alpha\<close>, \<^verbatim>\<open>alnum\<close>, \<^verbatim>\<open>digit\<close>, \<^verbatim>\<open>lower\<close> and
  \<^verbatim>\<open>upper\<close> are \<open>GPred\<close> of a character predicate; \<open>GFilter\<close> is the method
  \<^verbatim>\<open>Parser.pred\<close>; \<open>GPow\<close> takes the repeat count that \<^verbatim>\<open>__pow__\<close> accepts. The
  functions given by the user are pure: total functions that return a value or raise.
\<close>

datatype grammar =
    GTag string
  | GOne
  | GPred "val \<Rightarrow> error + val"
  | GSpace
  | GWs
  | GKw string
  | GSeq "grammar list"
  | GSeqws "grammar list"
  | GSeqspanned "grammar list"
  | GAdd grammar grammar
  | GMul grammar grammar
  | GPow grammar nat
  | GGetitem grammar grammar
  | GLshift grammar grammar
  | GRshift grammar grammar
  | GPos grammar
  | GNeg grammar
  | GOptional grammar
  | GMany0 grammar
  | GMany1 grammar
  | GMap grammar "val \<Rightarrow> error + val"
  | GMapStar grammar "val list \<Rightarrow> error + val"
  | GFilter grammar "val \<Rightarrow> error + val"
  | GIndex grammar int
  | GLeft grammar
  | GRight grammar
  | GSpanned grammar
  | GSpan grammar
  | GStringed grammar
  | GString grammar
  | GNegate grammar

text \<open>The parser that a term of the grammar denotes.\<close>

fun build :: "grammar \<Rightarrow> parser" where
  "build (GTag m) = tag m"
| "build GOne = one"
| "build (GPred f) = pred f"
| "build GSpace = space"
| "build GWs = ws"
| "build (GKw m) = kw m"
| "build (GSeq gs) = seq (map build gs)"
| "build (GSeqws gs) = seqws (map build gs)"
| "build (GSeqspanned gs) = seqspanned (map build gs)"
| "build (GAdd a b) = Parser_add (build a) (build b)"
| "build (GMul a b) = Parser_mul (build a) (build b)"
| "build (GPow a n) = seq (replicate n (build a))"
| "build (GGetitem a b) = Parser_getitem (build a) (build b)"
| "build (GLshift a b) = Parser_lshift (build a) (build b)"
| "build (GRshift a b) = Parser_rshift (build a) (build b)"
| "build (GPos a) = Parser_pos (build a)"
| "build (GNeg a) = Parser_neg (build a)"
| "build (GOptional a) = Parser_optional (build a)"
| "build (GMany0 a) = Parser_many0 (build a)"
| "build (GMany1 a) = Parser_many1 (build a)"
| "build (GMap a f) = Parser_map (build a) f"
| "build (GMapStar a f) = Parser_map_star (build a) f"
| "build (GFilter a f) = Parser_pred (build a) f"
| "build (GIndex a i) = Parser_index (build a) i"
| "build (GLeft a) = Parser_left (build a)"
| "build (GRight a) = Parser_right (build a)"
| "build (GSpanned a) = Parser_spanned (build a)"
| "build (GSpan a) = Parser_span (build a)"
| "build (GStringed a) = Parser_stringed (build a)"
| "build (GString a) = Parser_string (build a)"
| "build (GNegate a) = Parser_negate (build a)"

text \<open>A parser keeps the text of its cursor and never moves the offset backwards.\<close>

definition advancing :: "parser \<Rightarrow> bool" where
  "advancing p =
     (\<forall>s x s'. p s = returns (ROk x s') \<longrightarrow> Input_s s' = Input_s s \<and> Input_i s \<le> Input_i s')"

section \<open>The shape of a separated list\<close>

text \<open>
  Following the words of the specification, not the code: the input at the cursor \<open>s\<close>
  holds exactly \<open>k\<close> occurrences of the element pattern \<open>p\<close> separated by the separator
  pattern \<open>sep\<close>, with (\<open>trailing\<close>) or without a separator after the last occurrence.
  After the last element the separator does not match; after a trailing separator the
  element does not match.
\<close>

fun occurrences :: "parser \<Rightarrow> parser \<Rightarrow> Input \<Rightarrow> nat \<Rightarrow> bool \<Rightarrow> bool" where
  "occurrences p sep s 0 trailing = fails (p s)"
| "occurrences p sep s (Suc k) trailing =
     (case p s of
        Some (Inr (ROk x s1)) \<Rightarrow>
          (case sep s1 of
             Some (Inr (ROk y s2)) \<Rightarrow>
               if fails (p s2) then k = 0 \<and> trailing else occurrences p sep s2 k trailing
           | Some (Inr _) \<Rightarrow> k = 0 \<and> \<not> trailing
           | _ \<Rightarrow> False)
      | _ \<Rightarrow> False)"

section \<open>Runs of whitespace\<close>

text \<open>
  The offset at which the run of whitespace characters that starts at the offset \<open>i\<close> of
  the text \<open>s\<close> ends.
\<close>

definition skip_space :: "string \<Rightarrow> int \<Rightarrow> int" where
  "skip_space s i = i + int (length (takeWhile isspace (drop (nat i) s)))"

section \<open>Sequences with whitespace\<close>

text \<open>
  Following the words of the specification, not the code: from the cursor \<open>s\<close> the
  elements \<open>ps\<close> match in order, each followed by skipped whitespace, with the values
  \<open>vs\<close> and the final cursor \<open>c\<close>.
\<close>

fun elements_ws :: "parser list \<Rightarrow> Input \<Rightarrow> val list \<Rightarrow> Input \<Rightarrow> bool" where
  "elements_ws [] s vs c = (vs = [] \<and> c = s)"
| "elements_ws (p # ps) s vs c =
     (case p s of
        Some (Inr (ROk x s1)) \<Rightarrow>
          (case ws s1 of
             Some (Inr (ROk w s2)) \<Rightarrow>
               (case vs of [] \<Rightarrow> False | v # vs' \<Rightarrow> v = x \<and> elements_ws ps s2 vs' c)
           | _ \<Rightarrow> False)
      | _ \<Rightarrow> False)"

text \<open>
  The same on the text itself, for literal elements: each literal is a prefix of the text
  at the current offset and the run of whitespace after it is skipped. The result is the
  offset reached, or \<open>None\<close> when a literal does not match.
\<close>

fun literals_ws :: "string list \<Rightarrow> string \<Rightarrow> int \<Rightarrow> int option" where
  "literals_ws [] s a = Some a"
| "literals_ws (m # ms) s a =
     (if prefix m (drop (nat a) s) then literals_ws ms s (skip_space s (a + int (length m)))
      else None)"

section \<open>Evaluation and basic facts\<close>

declare many0_loop.simps [code]

declare getitem_loop.simps [code]

lemma truthy_iff: "truthy r \<longleftrightarrow> (\<exists>x s. r = ROk x s)"
  by (cases r) auto

lemma succeeds_iff: "succeeds c \<longleftrightarrow> (\<exists>x s. c = returns (ROk x s))"
  by (auto simp: succeeds_def truthy_iff split: option.splits sum.splits)

lemma fails_iff: "fails c \<longleftrightarrow> c = returns RNone \<or> c = returns RFalse"
proof -
  have "\<not> truthy r \<longleftrightarrow> r = RNone \<or> r = RFalse" for r
    by (cases r) auto
  then show ?thesis
    by (auto simp: fails_def split: option.splits sum.splits)
qed

section \<open>Slicing from a non-negative offset\<close>

lemma py_slice_nonneg:
  assumes "0 \<le> a" and "0 \<le> n"
  shows "py_slice xs a (a + n) = take (nat n) (drop (nat a) xs)"
proof (cases "a \<le> int (length xs)")
  case True
  have "take (nat (min (a + n) (int (length xs)) - a)) (drop (nat a) xs)
          = take (nat n) (drop (nat a) xs)"
  proof (cases "a + n \<le> int (length xs)")
    case True
    then show ?thesis by (simp add: min_def)
  next
    case False
    with True assms have "length (drop (nat a) xs) \<le> nat (int (length xs) - a)"
      and "length (drop (nat a) xs) \<le> nat n"
      by auto
    with False show ?thesis by (simp add: min_def)
  qed
  with True assms show ?thesis
    by (simp add: py_slice_def Let_def min_def)
next
  case False
  with assms show ?thesis
    by (simp add: py_slice_def Let_def min_def)
qed

lemma take_length_eq_prefix: "take (length m) xs = m \<longleftrightarrow> prefix m xs"
proof
  assume "take (length m) xs = m"
  then have "xs = m @ drop (length m) xs"
    by (metis append_take_drop_id)
  then show "prefix m xs"
    by (metis prefixI)
next
  assume "prefix m xs"
  then show "take (length m) xs = m"
    by (auto simp: prefix_def)
qed

lemma curr_eq_prefix:
  assumes "0 \<le> i"
  shows "Input_curr (Input s i) (int (length m)) = m \<longleftrightarrow> prefix m (drop (nat i) s)"
  using py_slice_nonneg [OF assms, of "int (length m)" s]
  by (simp add: take_length_eq_prefix)

section \<open>Claims on the cursor, the span and the literal matcher\<close>

text \<open>
  C2. For a cursor with a non-negative offset \<open>i\<close> (the invariant of a cursor), the text at
  the offset is \<open>drop i s\<close>. When the literal \<open>m\<close> is a prefix of it, \<open>tag m\<close> succeeds
  with the value \<open>m\<close> and the cursor advanced by exactly the length of \<open>m\<close>; when it is
  not, \<open>tag m\<close> fails with \<^verbatim>\<open>None\<close>, which carries no cursor: nothing is consumed.
\<close>

theorem tag_exact_match:
  assumes "0 \<le> i"
  shows "(prefix m (drop (nat i) s) \<longrightarrow>
            tag m (Input s i) = returns (ROk (VStr m) (Input s (i + int (length m)))))
       \<and> (\<not> prefix m (drop (nat i) s) \<longrightarrow> tag m (Input s i) = returns RNone)"
  using curr_eq_prefix [OF assms, of s m] by (simp add: tag_def)

theorem tag_exact_match_witness:
  "(0::int) \<le> 3
   \<and> prefix ''...'' (drop (nat 3) ''abc...asdf'')
   \<and> tag ''...'' (Input ''abc...asdf'' 3) = returns (ROk (VStr ''...'') (Input ''abc...asdf'' 6))
   \<and> \<not> prefix ''...'' (drop (nat 3) ''abc.,.'')
   \<and> tag ''...'' (Input ''abc.,.'' 3) = returns RNone"
  using tag_exact_match [of 3 "''...''" "''abc...asdf''"]
    tag_exact_match [of 3 "''...''" "''abc.,.''"]
  by (simp add: numeral_3_eq_3)

text \<open>
  C3, as the code has it. \<^verbatim>\<open>Input.span\<close> on a cursor operand does not merge: it is
  the span from the receiving cursor's offset to the operand's offset. It is the span
  \<open>[min, max]\<close> of the two offsets exactly when the receiving offset is not after the
  operand's, and exactly then it has \<open>start \<le> end\<close>. \<^verbatim>\<open>Span.span\<close> is the merge
  \<open>[min of the starts, max of the ends]\<close>, a cursor counting as a zero-width endpoint,
  and whatever the operand, the merged span has \<open>start \<le> end\<close> whenever the receiving
  span has.
\<close>

theorem span_merge_amended:
  "Input_span (Input s i) (OInput (Input s2 i2)) = Inr (Span s i i2)
   \<and> (Input_span (Input s i) (OInput (Input s2 i2)) = Inr (Span s (min i i2) (max i i2))
        \<longleftrightarrow> i \<le> i2)
   \<and> ((\<exists>sp. Input_span (Input s i) (OInput (Input s2 i2)) = Inr sp \<and> Span_ordered sp)
        \<longleftrightarrow> i \<le> i2)
   \<and> Span_span (Span s i j) (OSpan (Span s2 i2 j2)) = Inr (Span s (min i i2) (max j j2))
   \<and> Span_span (Span s i j) (OInput (Input s2 i2)) = Inr (Span s (min i i2) (max j i2))
   \<and> (Span_ordered (Span s i j) \<longrightarrow>
        (\<forall>x sp. Span_span (Span s i j) x = Inr sp \<longrightarrow> Span_ordered sp))"
proof -
  have "Span_ordered sp" if "Span_ordered (Span s i j)" and "Span_span (Span s i j) x = Inr sp"
    for x sp
  proof (cases x)
    case (OInput c)
    with that show ?thesis by (cases c) auto
  next
    case (OSpan t)
    with that show ?thesis by (cases t) auto
  next
    case OOther
    with that show ?thesis by simp
  qed
  then show ?thesis by auto
qed

theorem span_merge_amended_witness:
  "Span_ordered (Span ''abcdef'' 2 3)
   \<and> Span_span (Span ''abcdef'' 2 3) (OSpan (Span ''abcdef'' 1 5)) = Inr (Span ''abcdef'' 1 5)
   \<and> Span_ordered (Span ''abcdef'' 1 5)
   \<and> Span_span (Span ''abcdef'' 2 3) (OInput (Input ''abcdef'' 1)) = Inr (Span ''abcdef'' 1 3)
   \<and> Span_ordered (Span ''abcdef'' 1 3)
   \<and> Input_span (Input ''abcdef'' 1) (OInput (Input ''abcdef'' 4)) = Inr (Span ''abcdef'' 1 4)
   \<and> (1::int) \<le> 4"
  using span_merge_amended [of "''abcdef''" 2 "''abcdef''" 1 3 5]
    span_merge_amended [of "''abcdef''" 1 "''abcdef''" 4 1 1]
  by simp

text \<open>
  C3 as stated fails. The cursor at offset 5 spanned with the cursor at offset 2 gives the
  span from 5 to 2, which is not the merge from 2 to 5 and has its start after its end.
  The cursor at offset 1 spanned with the span from 3 to 5 gives the span from 1 to 3,
  which is not the merge from 1 to 5.
\<close>

theorem span_merge_counterexample:
  "Input_span (Input ''abcdef'' 5) (OInput (Input ''abcdef'' 2)) = Inr (Span ''abcdef'' 5 2)
   \<and> Input_span (Input ''abcdef'' 5) (OInput (Input ''abcdef'' 2))
        \<noteq> Inr (Span ''abcdef'' (min 5 2) (max 5 2))
   \<and> \<not> Span_ordered (Span ''abcdef'' 5 2)
   \<and> Input_span (Input ''abcdef'' 1) (OSpan (Span ''abcdef'' 3 5)) = Inr (Span ''abcdef'' 1 3)
   \<and> Input_span (Input ''abcdef'' 1) (OSpan (Span ''abcdef'' 3 5))
        \<noteq> Inr (Span ''abcdef'' (min 1 3) (max 1 5))"
  by simp


section \<open>Claims on single combinators\<close>

text \<open>
  C5. \<open>Parser_negate p\<close> succeeds exactly when \<open>p\<close> fails on the cursor, and then returns
  \<^verbatim>\<open>(None, s)\<close> with the cursor it was given; it fails (with the false value
  \<^verbatim>\<open>False\<close>) exactly when \<open>p\<close> succeeds.
\<close>

theorem negate_duality:
  "(succeeds (Parser_negate p s) \<longleftrightarrow> fails (p s))
   \<and> (fails (Parser_negate p s) \<longleftrightarrow> succeeds (p s))
   \<and> (fails (p s) \<longrightarrow> Parser_negate p s = returns (ROk VNone s))"
  by (auto simp: Parser_negate_def succeeds_def fails_def
      split: option.splits sum.splits result.splits)

theorem negate_duality_witness:
  "fails (tag ''x'' (Input ''y'' 0))
   \<and> Parser_negate (tag ''x'') (Input ''y'' 0) = returns (ROk VNone (Input ''y'' 0))
   \<and> succeeds (tag ''x'' (Input ''x'' 0))
   \<and> fails (Parser_negate (tag ''x'') (Input ''x'' 0))"
  using negate_duality [of "tag ''x''" "Input ''y'' 0"]
    negate_duality [of "tag ''x''" "Input ''x'' 0"]
  by (simp add: tag_def py_slice_def succeeds_def fails_def)

text \<open>
  C6. \<open>Parser_optional p\<close> never fails. When \<open>p\<close> fails it returns \<^verbatim>\<open>(None, s)\<close> with
  the cursor it was given, when \<open>p\<close> succeeds it returns the result of \<open>p\<close>; so whenever
  \<open>p\<close> returns at all, \<open>Parser_optional p\<close> succeeds.
\<close>

theorem optional_total:
  "\<not> fails (Parser_optional p s)
   \<and> (fails (p s) \<longrightarrow> Parser_optional p s = returns (ROk VNone s))
   \<and> (succeeds (p s) \<longrightarrow> Parser_optional p s = p s)
   \<and> ((\<exists>r. p s = returns r) \<longrightarrow> succeeds (Parser_optional p s))"
  by (auto simp: Parser_optional_def succeeds_def fails_def
      split: option.splits sum.splits result.splits)

theorem optional_total_witness:
  "fails (tag ''x'' (Input ''y'' 0))
   \<and> Parser_optional (tag ''x'') (Input ''y'' 0) = returns (ROk VNone (Input ''y'' 0))
   \<and> succeeds (tag ''x'' (Input ''x'' 0))
   \<and> Parser_optional (tag ''x'') (Input ''x'' 0) = returns (ROk (VStr ''x'') (Input ''x'' 1))"
  using optional_total [of "tag ''x''" "Input ''y'' 0"]
    optional_total [of "tag ''x''" "Input ''x'' 0"]
  by (simp add: tag_def py_slice_def succeeds_def fails_def)

section \<open>Sequences\<close>

text \<open>
  C1 does not hold of the code. The lookahead negation reports its failure by \<^verbatim>\<open>False\<close>;
  \<^verbatim>\<open>seq\<close> tests \<^verbatim>\<open>is not None\<close> and then unpacks the result, so the sequence of a
  negated \<open>tag ''x''\<close> on the input \<^verbatim>\<open>x\<close> raises \<^verbatim>\<open>TypeError\<close>. The binary sequence
  \<^verbatim>\<open>__mul__\<close>, which tests the truth value, returns \<^verbatim>\<open>None\<close> on the same parser and
  input.
\<close>

theorem seq_negate_raises:
  "seq [Parser_negate (tag ''x'')] (Input ''x'' 0) = raises TypeError
   \<and> Parser_mul (Parser_negate (tag ''x'')) (tag ''x'') (Input ''x'' 0) = returns RNone"
  by code_simp

section \<open>Repetition\<close>

lemma many0_loop_result:
  assumes "many0_loop p xs s = Some c"
  shows "(\<exists>e. c = Inl e) \<or> (\<exists>ys s'. c = Inr (ROk (VList ys) s'))"
proof (rule many0_loop.raw_induct
    [where P = "\<lambda>self xs s c. (\<exists>e. c = Inl e) \<or> (\<exists>ys s'. c = Inr (ROk (VList ys) s'))",
      OF _ assms], goal_cases)
  case (1 loop self xs s c)
  then show ?case
    by (auto split: option.splits sum.splits result.splits)
qed

lemma many0_returns_list:
  "Parser_many0 p s = returns r \<Longrightarrow> \<exists>ys s'. r = ROk (VList ys) s'"
  using many0_loop_result [of p "[]" s "Inr r"] by (simp add: Parser_many0_def)

text \<open>
  C7. \<open>Parser_many1 p\<close> succeeds exactly when \<open>Parser_many0 p\<close> returns a non-empty
  list, and then returns what \<open>Parser_many0 p\<close> returns, list and cursor; it fails exactly
  when \<open>Parser_many0 p\<close> returns the empty list.
\<close>

theorem many1_relation:
  "(succeeds (Parser_many1 p s) \<longleftrightarrow>
      (\<exists>xs s'. xs \<noteq> [] \<and> Parser_many0 p s = returns (ROk (VList xs) s')))
   \<and> (succeeds (Parser_many1 p s) \<longrightarrow> Parser_many1 p s = Parser_many0 p s)
   \<and> (fails (Parser_many1 p s) \<longleftrightarrow> (\<exists>s'. Parser_many0 p s = returns (ROk (VList []) s')))"
proof (cases "Parser_many0 p s")
  case None
  then show ?thesis
    by (simp add: Parser_many1_def Parser_pred_def succeeds_def fails_def)
next
  case (Some c)
  show ?thesis
  proof (cases c)
    case (Inl e)
    with Some show ?thesis
      by (simp add: Parser_many1_def Parser_pred_def succeeds_def fails_def)
  next
    case (Inr r)
    with Some many0_returns_list [of p s r] obtain ys s' where "r = ROk (VList ys) s'"
      by auto
    with Some Inr show ?thesis
      by (simp add: Parser_many1_def Parser_pred_def succeeds_def fails_def)
  qed
qed

theorem many1_relation_witness:
  "succeeds (Parser_many1 (tag ''x'') (Input ''xxx'' 0))
   \<and> Parser_many1 (tag ''x'') (Input ''xxx'' 0) = Parser_many0 (tag ''x'') (Input ''xxx'' 0)
   \<and> Parser_many0 (tag ''x'') (Input ''xxx'' 0)
        = returns (ROk (VList [VStr ''x'', VStr ''x'', VStr ''x'']) (Input ''xxx'' 3))
   \<and> fails (Parser_many1 (tag ''x'') (Input ''y'' 0))"
proof -
  have m0: "Parser_many0 (tag ''x'') (Input ''xxx'' 0)
        = returns (ROk (VList [VStr ''x'', VStr ''x'', VStr ''x'']) (Input ''xxx'' 3))"
    by code_simp
  have m1: "Parser_many0 (tag ''x'') (Input ''y'' 0) = returns (ROk (VList []) (Input ''y'' 0))"
    by code_simp
  show ?thesis
    using many1_relation [of "tag ''x''" "Input ''xxx'' 0"]
      many1_relation [of "tag ''x''" "Input ''y'' 0"] m0 m1
    by simp
qed

section \<open>Separated lists\<close>

lemma getitem_loop_result:
  assumes "getitem_loop p sep xs ys s = Some c"
  shows "(\<exists>e. c = Inl e) \<or> (\<exists>xs' ys' s'. c = Inr (ROk (VTuple [VList xs', VList ys']) s'))"
proof (rule getitem_loop.raw_induct
    [where P = "\<lambda>self other xs ys s c.
        (\<exists>e. c = Inl e) \<or> (\<exists>xs' ys' s'. c = Inr (ROk (VTuple [VList xs', VList ys']) s'))",
      OF _ assms], goal_cases)
  case (1 loop self other xs ys s c)
  then show ?case
    by (auto split: option.splits sum.splits result.splits)
qed

lemma getitem_never_fails: "\<not> fails (Parser_getitem p sep s)"
  using getitem_loop_result [of p sep "[]" "[]" s]
  by (auto simp: fails_iff Parser_getitem_def)

lemma getitem_loop_stop:
  assumes "fails (p s)"
  shows "getitem_loop p sep xs ys s = returns (ROk (VTuple [VList xs, VList ys]) s)"
  using assms by (subst getitem_loop.simps) (auto simp: fails_iff)

lemma getitem_loop_occurrences:
  assumes "occurrences p sep s k trailing"
  shows "\<exists>xs' ys' s'.
           getitem_loop p sep xs ys s = returns (ROk (VTuple [VList (xs @ xs'), VList (ys @ ys')]) s')
           \<and> length xs' = k \<and> length ys' = (if trailing then k else k - 1)"
  using assms
proof (induction k arbitrary: s xs ys)
  case 0
  then show ?case
    by (simp add: getitem_loop_stop)
next
  case (Suc k)
  from Suc.prems obtain x s1 where p: "p s = returns (ROk x s1)"
    by (auto split: option.splits sum.splits result.splits)
  show ?case
  proof (cases "succeeds (sep s1)")
    case False
    with Suc.prems p have k: "k = 0" "\<not> trailing" and f: "fails (sep s1)"
      by (auto simp: succeeds_def fails_def split: option.splits sum.splits result.splits)
    from p f have "getitem_loop p sep xs ys s = returns (ROk (VTuple [VList (xs @ [x]), VList ys]) s1)"
      by (subst getitem_loop.simps) (auto simp: fails_iff)
    with k show ?thesis
      by (intro exI [of _ "[x]"] exI [of _ "[]"] exI [of _ s1]) simp
  next
    case True
    then obtain y s2 where sep: "sep s1 = returns (ROk y s2)"
      by (auto simp: succeeds_iff)
    from p sep have step: "getitem_loop p sep xs ys s = getitem_loop p sep (xs @ [x]) (ys @ [y]) s2"
      by (subst getitem_loop.simps) simp
    show ?thesis
    proof (cases "fails (p s2)")
      case True
      with Suc.prems p sep have k: "k = 0" "trailing"
        by auto
      from True step have "getitem_loop p sep xs ys s
            = returns (ROk (VTuple [VList (xs @ [x]), VList (ys @ [y])]) s2)"
        by (simp add: getitem_loop_stop)
      with k show ?thesis
        by (intro exI [of _ "[x]"] exI [of _ "[y]"] exI [of _ s2]) simp
    next
      case False
      with Suc.prems p sep have occ: "occurrences p sep s2 k trailing"
        by auto
      with False have kpos: "k \<noteq> 0"
        by (cases k) auto
      from Suc.IH [OF occ, of "xs @ [x]" "ys @ [y]"] obtain xs' ys' s' where
        loop: "getitem_loop p sep (xs @ [x]) (ys @ [y]) s2
                 = returns (ROk (VTuple [VList ((xs @ [x]) @ xs'), VList ((ys @ [y]) @ ys')]) s')"
        and len: "length xs' = k" "length ys' = (if trailing then k else k - 1)"
        by blast
      from step loop len kpos show ?thesis
        by (intro exI [of _ "x # xs'"] exI [of _ "y # ys'"] exI [of _ s']) auto
    qed
  qed
qed

text \<open>
  C4, as the code has it. \<open>Parser_getitem p sep\<close> never reports a failure. When the input
  holds exactly \<open>k\<close> occurrences of the element separated by the separator, the loop
  returns, with a list of \<open>k\<close> values and a list of \<open>k\<close> separators when a separator
  trails, of \<open>k - 1\<close> separators when none does. When \<open>p\<close> fails at once the result is
  the pair of two empty lists and the cursor that was given.
\<close>

theorem separated_list_shape:
  "\<not> fails (Parser_getitem p sep s)
   \<and> (occurrences p sep s k trailing \<longrightarrow>
        (\<exists>xs ys s'. Parser_getitem p sep s = returns (ROk (VTuple [VList xs, VList ys]) s')
           \<and> length xs = k \<and> length ys = (if trailing then k else k - 1)))
   \<and> (fails (p s) \<longrightarrow> Parser_getitem p sep s = returns (ROk (VTuple [VList [], VList []]) s))"
  using getitem_never_fails [of p sep s] getitem_loop_occurrences [of p sep s k trailing "[]" "[]"]
    getitem_loop_stop [of p s sep "[]" "[]"]
  by (simp add: Parser_getitem_def)

lemma getitem_loop_empty_diverges:
  assumes "getitem_loop (tag []) (tag []) xs ys s = Some c"
  shows False
proof (rule getitem_loop.raw_induct
    [where P = "\<lambda>self other xs ys s c. self = tag [] \<and> other = tag [] \<longrightarrow> False",
      OF _ assms, rule_format], goal_cases)
  case (1 loop self other xs ys s c)
  have t: "tag [] s = returns (ROk (VStr []) s)" for s
    by (cases s) (simp add: tag_def py_slice_def)
  from 1(2,3) have "loop (tag []) (tag []) (xs @ [VStr []]) (ys @ [VStr []]) s = Some c"
    by (simp add: t)
  from 1(1) [OF this] show ?case by simp
qed simp

text \<open>
  C4 as stated fails: the separated list does not succeed for every pair of parsers. With
  an element and a separator that both match the empty string the loop never returns.
\<close>

theorem separated_list_counterexample:
  "Parser_getitem (tag '''') (tag '''') (Input ''x'' 0) = None
   \<and> \<not> succeeds (Parser_getitem (tag '''') (tag '''') (Input ''x'' 0))"
proof -
  have "Parser_getitem (tag '''') (tag '''') (Input ''x'' 0) = None"
    using getitem_loop_empty_diverges [of "[]" "[]" "Input ''x'' 0"]
    by (cases "Parser_getitem (tag '''') (tag '''') (Input ''x'' 0)")
      (auto simp: Parser_getitem_def)
  then show ?thesis by (simp add: succeeds_def)
qed

theorem separated_list_shape_witness:
  "occurrences (tag ''x'') (tag '','') (Input ''x,x,'' 0) 2 True
   \<and> Parser_getitem (tag ''x'') (tag '','') (Input ''x,x,'' 0)
       = returns (ROk (VTuple [VList [VStr ''x'', VStr ''x''], VList [VStr '','', VStr '','']])
           (Input ''x,x,'' 4))
   \<and> occurrences (tag ''x'') (tag '','') (Input ''x,x'' 0) 2 False
   \<and> (\<exists>xs ys s'. Parser_getitem (tag ''x'') (tag '','') (Input ''x,x'' 0)
          = returns (ROk (VTuple [VList xs, VList ys]) s') \<and> length xs = 2 \<and> length ys = 1)
   \<and> fails (tag ''x'' (Input ''y'' 0))
   \<and> Parser_getitem (tag ''x'') (tag '','') (Input ''y'' 0)
       = returns (ROk (VTuple [VList [], VList []]) (Input ''y'' 0))"
proof -
  have o1: "occurrences (tag ''x'') (tag '','') (Input ''x,x,'' 0) 2 True"
    by code_simp
  have o2: "occurrences (tag ''x'') (tag '','') (Input ''x,x'' 0) 2 False"
    by code_simp
  have o3: "fails (tag ''x'' (Input ''y'' 0))"
    by code_simp
  have v: "Parser_getitem (tag ''x'') (tag '','') (Input ''x,x,'' 0)
       = returns (ROk (VTuple [VList [VStr ''x'', VStr ''x''], VList [VStr '','', VStr '','']])
           (Input ''x,x,'' 4))"
    by code_simp
  show ?thesis
    using separated_list_shape [of "tag ''x''" "tag '',''" "Input ''x,x,'' 0" 2 True]
      separated_list_shape [of "tag ''x''" "tag '',''" "Input ''x,x'' 0" 2 False]
      separated_list_shape [of "tag ''x''" "tag '',''" "Input ''y'' 0" 0 False]
      o1 o2 o3 v
    by simp
qed

section \<open>Cursors only move forward\<close>

lemma advancingD:
  "advancing p \<Longrightarrow> p s = returns (ROk x s') \<Longrightarrow> Input_s s' = Input_s s \<and> Input_i s \<le> Input_i s'"
  by (simp add: advancing_def)

lemma advancing_tag: "advancing (tag m)"
proof -
  have "Input_s (Input_advance s n) = Input_s s" and "0 \<le> n \<Longrightarrow> Input_i s \<le> Input_i (Input_advance s n)"
    for s n by (cases s; simp)+
  then show ?thesis
    by (auto simp: advancing_def tag_def split: if_splits)
qed

lemma advancing_one: "advancing one"
proof -
  have "Input_s (Input_advance s 1) = Input_s s" and "Input_i s \<le> Input_i (Input_advance s 1)"
    for s by (cases s; simp)+
  then show ?thesis
    by (auto simp: advancing_def one_def split: if_splits)
qed

lemma advancing_add: "advancing p \<Longrightarrow> advancing q \<Longrightarrow> advancing (Parser_add p q)"
  unfolding advancing_def Parser_add_def
  by (auto split: option.splits sum.splits result.splits)

lemma advancing_mul:
  assumes "advancing p" and "advancing q"
  shows "advancing (Parser_mul p q)"
  unfolding advancing_def
proof (intro allI impI)
  fix s x s'
  assume "Parser_mul p q s = returns (ROk x s')"
  then obtain x1 s1 x2 where "p s = returns (ROk x1 s1)" and "q s1 = returns (ROk x2 s')"
    by (auto simp: Parser_mul_def split: option.splits sum.splits result.splits)
  with advancingD [OF assms(1)] advancingD [OF assms(2)]
  show "Input_s s' = Input_s s \<and> Input_i s \<le> Input_i s'"
    by fastforce
qed

lemma advancing_map: "advancing p \<Longrightarrow> advancing (Parser_map p f)"
  unfolding advancing_def Parser_map_def
  by (auto split: option.splits sum.splits result.splits)

lemma advancing_map_star: "advancing p \<Longrightarrow> advancing (Parser_map_star p f)"
  unfolding advancing_def Parser_map_star_def
  by (auto split: option.splits sum.splits result.splits)

lemma advancing_pred: "advancing p \<Longrightarrow> advancing (Parser_pred p f)"
  unfolding advancing_def Parser_pred_def
  by (auto split: option.splits sum.splits result.splits if_splits)

lemma advancing_optional: "advancing p \<Longrightarrow> advancing (Parser_optional p)"
  unfolding advancing_def Parser_optional_def
  by (auto split: option.splits sum.splits result.splits)

lemma advancing_negate: "advancing (Parser_negate p)"
  unfolding advancing_def Parser_negate_def
  by (auto split: option.splits sum.splits result.splits)

lemma advancing_spanned: "advancing p \<Longrightarrow> advancing (Parser_spanned p)"
  unfolding advancing_def Parser_spanned_def
  by (auto split: option.splits sum.splits result.splits)

lemma advancing_stringed: "advancing p \<Longrightarrow> advancing (Parser_stringed p)"
  unfolding advancing_def Parser_stringed_def
  by (auto split: option.splits sum.splits result.splits)

lemma many0_loop_advancing:
  assumes run: "many0_loop p xs s = Some c"
  shows "advancing p \<longrightarrow>
     (\<forall>v s'. c = Inr (ROk v s') \<longrightarrow> Input_s s' = Input_s s \<and> Input_i s \<le> Input_i s')"
proof (rule many0_loop.raw_induct
    [where P = "\<lambda>self xs s c. advancing self \<longrightarrow>
        (\<forall>v s'. c = Inr (ROk v s') \<longrightarrow> Input_s s' = Input_s s \<and> Input_i s \<le> Input_i s')",
      OF _ run], goal_cases)
  case (1 loop self xs s c)
  show ?case
  proof (intro impI allI)
    fix v s'
    assume adv: "advancing self" and c: "c = Inr (ROk v s')"
    show "Input_s s' = Input_s s \<and> Input_i s \<le> Input_i s'"
    proof (cases "succeeds (self s)")
      case True
      then obtain x s1 where p: "self s = returns (ROk x s1)"
        by (auto simp: succeeds_iff)
      with 1(2) have "loop self (xs @ [x]) s1 = Some c" by simp
      from 1(1) [OF this] adv c
      have "Input_s s' = Input_s s1 \<and> Input_i s1 \<le> Input_i s'" by simp
      with advancingD [OF adv p] show ?thesis by simp
    next
      case False
      with 1(2) c show ?thesis
        by (auto simp: succeeds_def split: option.splits sum.splits result.splits)
    qed
  qed
qed

lemma advancing_many0: "advancing p \<Longrightarrow> advancing (Parser_many0 p)"
  using many0_loop_advancing [of p "[]"]
  by (auto simp: advancing_def Parser_many0_def)

lemma getitem_loop_advancing:
  assumes run: "getitem_loop p q xs ys s = Some c"
  shows "advancing p \<and> advancing q \<longrightarrow>
     (\<forall>v s'. c = Inr (ROk v s') \<longrightarrow> Input_s s' = Input_s s \<and> Input_i s \<le> Input_i s')"
proof (rule getitem_loop.raw_induct
    [where P = "\<lambda>self other xs ys s c. advancing self \<and> advancing other \<longrightarrow>
        (\<forall>v s'. c = Inr (ROk v s') \<longrightarrow> Input_s s' = Input_s s \<and> Input_i s \<le> Input_i s')",
      OF _ run], goal_cases)
  case (1 loop self other xs ys s c)
  show ?case
  proof (intro impI allI)
    fix v s'
    assume adv: "advancing self \<and> advancing other" and c: "c = Inr (ROk v s')"
    then have ap: "advancing self" and aq: "advancing other" by simp_all
    show "Input_s s' = Input_s s \<and> Input_i s \<le> Input_i s'"
    proof (cases "succeeds (self s)")
      case False
      with 1(2) c show ?thesis
        by (auto simp: succeeds_def split: option.splits sum.splits result.splits)
    next
      case True
      then obtain x s1 where p: "self s = returns (ROk x s1)"
        by (auto simp: succeeds_iff)
      note ps = advancingD [OF ap p]
      show ?thesis
      proof (cases "succeeds (other s1)")
        case False
        with 1(2) c p ps show ?thesis
          by (auto simp: succeeds_def split: option.splits sum.splits result.splits)
      next
        case True
        then obtain y s2 where o: "other s1 = returns (ROk y s2)"
          by (auto simp: succeeds_iff)
        with 1(2) p have "loop self other (xs @ [x]) (ys @ [y]) s2 = Some c" by simp
        from 1(1) [OF this] adv c
        have "Input_s s' = Input_s s2 \<and> Input_i s2 \<le> Input_i s'" by simp
        with ps advancingD [OF aq o] show ?thesis by simp
      qed
    qed
  qed
qed

lemma advancing_getitem: "advancing p \<Longrightarrow> advancing q \<Longrightarrow> advancing (Parser_getitem p q)"
  using getitem_loop_advancing [of p q "[]" "[]"]
  by (auto simp: advancing_def Parser_getitem_def)

lemma seq_loop_Cons_ok:
  assumes "seq_loop (p # ps) xs s = returns (ROk v s')"
  shows "\<exists>x s1. p s = returns (ROk x s1) \<and> seq_loop ps (xs @ [x]) s1 = returns (ROk v s')"
proof (cases "p s")
  case None
  with assms show ?thesis by simp
next
  case (Some c)
  show ?thesis
  proof (cases c)
    case (Inl e)
    with Some assms show ?thesis by simp
  next
    case (Inr r)
    with Some assms show ?thesis by (cases r) simp_all
  qed
qed

lemma seq_loop_advancing:
  assumes "\<forall>p \<in> set ps. advancing p" and "seq_loop ps xs s = returns (ROk v s')"
  shows "Input_s s' = Input_s s \<and> Input_i s \<le> Input_i s'"
  using assms
proof (induction ps arbitrary: xs s)
  case Nil
  then show ?case by simp
next
  case (Cons p ps)
  from seq_loop_Cons_ok [OF Cons.prems(2)] obtain x s1 where p: "p s = returns (ROk x s1)"
    and rest: "seq_loop ps (xs @ [x]) s1 = returns (ROk v s')"
    by blast
  from Cons.prems(1) have ap: "advancing p" and aps: "\<forall>q \<in> set ps. advancing q" by simp_all
  from Cons.IH [OF aps rest] have "Input_s s' = Input_s s1 \<and> Input_i s1 \<le> Input_i s'" .
  with advancingD [OF ap p] show ?case by simp
qed

lemma advancing_seq:
  assumes "\<forall>p \<in> set ps. advancing p"
  shows "advancing (seq ps)"
  unfolding advancing_def
proof (intro allI impI)
  fix s x s'
  assume "seq ps s = returns (ROk x s')"
  then have "seq_loop ps [] s = returns (ROk x s')"
    by (simp add: seq_def)
  from seq_loop_advancing [OF assms this]
  show "Input_s s' = Input_s s \<and> Input_i s \<le> Input_i s'" .
qed

lemma advancing_index: "advancing p \<Longrightarrow> advancing (Parser_index p i)"
  by (simp add: Parser_index_def advancing_map)

lemma advancing_left: "advancing p \<Longrightarrow> advancing (Parser_left p)"
  by (simp add: Parser_left_def advancing_index)

lemma advancing_right: "advancing p \<Longrightarrow> advancing (Parser_right p)"
  by (simp add: Parser_right_def advancing_index)

lemma advancing_lshift: "advancing p \<Longrightarrow> advancing q \<Longrightarrow> advancing (Parser_lshift p q)"
  by (simp add: Parser_lshift_def advancing_left advancing_mul)

lemma advancing_rshift: "advancing p \<Longrightarrow> advancing q \<Longrightarrow> advancing (Parser_rshift p q)"
  by (simp add: Parser_rshift_def advancing_right advancing_mul)

lemma advancing_many1: "advancing p \<Longrightarrow> advancing (Parser_many1 p)"
  by (simp add: Parser_many1_def advancing_pred advancing_many0)

lemma advancing_span: "advancing p \<Longrightarrow> advancing (Parser_span p)"
  by (simp add: Parser_span_def advancing_right advancing_spanned)

lemma advancing_string: "advancing p \<Longrightarrow> advancing (Parser_string p)"
  by (simp add: Parser_string_def advancing_right advancing_stringed)

lemma advancing_pred_fun: "advancing (pred f)"
  by (simp add: pred_def advancing_pred advancing_one)

lemma advancing_space: "advancing space"
  by (simp add: space_def advancing_pred_fun)

lemma advancing_ws: "advancing ws"
  by (simp add: ws_def advancing_many0 advancing_space)

lemma advancing_pos: "advancing p \<Longrightarrow> advancing (Parser_pos p)"
  by (simp add: Parser_pos_def advancing_rshift advancing_ws)

lemma advancing_neg: "advancing p \<Longrightarrow> advancing (Parser_neg p)"
  by (simp add: Parser_neg_def advancing_lshift advancing_ws)

lemma advancing_seqws: "\<forall>p \<in> set ps. advancing p \<Longrightarrow> advancing (seqws ps)"
  by (simp add: seqws_def advancing_pos advancing_seq advancing_neg)

lemma advancing_seqspanned: "\<forall>p \<in> set ps. advancing p \<Longrightarrow> advancing (seqspanned ps)"
  by (simp add: seqspanned_def advancing_map advancing_spanned advancing_seqws)

lemma advancing_kw: "advancing (kw m)"
  by (simp add: kw_def advancing_pos advancing_neg advancing_span advancing_tag)

lemma advancing_build: "advancing (build g)"
  by (induction g)
    (simp_all add: advancing_tag advancing_one advancing_pred_fun advancing_space advancing_ws
      advancing_kw advancing_seq advancing_seqws advancing_seqspanned advancing_add advancing_mul
      advancing_getitem advancing_lshift advancing_rshift advancing_pos advancing_neg
      advancing_optional advancing_many0 advancing_many1 advancing_map advancing_map_star
      advancing_pred advancing_index advancing_left advancing_right advancing_spanned
      advancing_span advancing_stringed advancing_string advancing_negate)

text \<open>
  C9. Whenever a parser built from the primitives and combinators of the library succeeds,
  the offset of the resulting cursor is at least the offset of the cursor it was given,
  over the same text. Cursors are values here as in the code, where no method assigns to
  a field of an \<^verbatim>\<open>Input\<close>: \<^verbatim>\<open>advance\<close> builds a new one.
\<close>

theorem offsets_never_decrease:
  assumes "build g s = returns (ROk x s')"
  shows "Input_i s \<le> Input_i s' \<and> Input_s s' = Input_s s"
  using advancingD [OF advancing_build assms] by simp

lemma pow_build: "Parser_pow (build g) (int n) = Inr (build (GPow g n))"
  by (simp add: Parser_pow_def)

theorem offsets_never_decrease_witness:
  "build (GSeqws [GTag ''x'', GMany0 (GPred str_isspace), GOptional (GKw ''y'')]) (Input '' x  y '' 0)
     = returns (ROk (VTuple [VStr ''x'', VList [], VSpan (Span '' x  y '' 4 5)]) (Input '' x  y '' 6))
   \<and> Input_i (Input '' x  y '' 0) \<le> Input_i (Input '' x  y '' 6)"
proof -
  have "build (GSeqws [GTag ''x'', GMany0 (GPred str_isspace), GOptional (GKw ''y'')]) (Input '' x  y '' 0)
     = returns (ROk (VTuple [VStr ''x'', VList [], VSpan (Span '' x  y '' 4 5)]) (Input '' x  y '' 6))"
    by code_simp
  from this offsets_never_decrease [OF this] show ?thesis by simp
qed

section \<open>Keywords\<close>

lemma py_item_pair: "py_item [x, y] 0 = Inr x" "py_item [x, y] 1 = Inr y"
  by (simp_all add: py_item_def)

lemma mul_ok:
  assumes "Parser_mul p q s = returns (ROk v c)"
  shows "\<exists>x s1 y. p s = returns (ROk x s1) \<and> q s1 = returns (ROk y c) \<and> v = VTuple [x, y]"
  using assms
  by (auto simp: Parser_mul_def split: option.splits sum.splits result.splits)

lemma map_ok:
  assumes "Parser_map p f s = returns (ROk v c)"
  shows "\<exists>x. p s = returns (ROk x c) \<and> f x = Inr v"
  using assms
  by (auto simp: Parser_map_def split: option.splits sum.splits result.splits)

lemma neg_ok:
  assumes "Parser_neg p s = returns (ROk v c)"
  shows "\<exists>s1 w. p s = returns (ROk v s1) \<and> ws s1 = returns (ROk w c)"
proof -
  from assms have "Parser_map (Parser_mul p ws) (\<lambda>x. py_index x 0) s = returns (ROk v c)"
    by (simp add: Parser_neg_def Parser_lshift_def Parser_left_def Parser_index_def)
  from map_ok [OF this] obtain t where m: "Parser_mul p ws s = returns (ROk t c)"
    and ix: "py_index t 0 = Inr v" by blast
  from mul_ok [OF m] obtain x s1 y where "p s = returns (ROk x s1)" "ws s1 = returns (ROk y c)"
    "t = VTuple [x, y]" by blast
  with ix show ?thesis by (simp add: py_item_pair)
qed

lemma pos_ok:
  assumes "Parser_pos p s = returns (ROk v c)"
  shows "\<exists>s1 w. ws s = returns (ROk w s1) \<and> p s1 = returns (ROk v c)"
proof -
  from assms have "Parser_map (Parser_mul ws p) (\<lambda>x. py_index x 1) s = returns (ROk v c)"
    by (simp add: Parser_pos_def Parser_rshift_def Parser_right_def Parser_index_def)
  from map_ok [OF this] obtain t where m: "Parser_mul ws p s = returns (ROk t c)"
    and ix: "py_index t 1 = Inr v" by blast
  from mul_ok [OF m] obtain x s1 y where "ws s = returns (ROk x s1)" "p s1 = returns (ROk y c)"
    "t = VTuple [x, y]" by blast
  with ix show ?thesis by (simp add: py_item_pair)
qed

lemma span_tag_ok:
  assumes "Parser_span (tag m) (Input s a) = returns (ROk v c)"
  shows "v = VSpan (Span s a (a + int (length m))) \<and> c = Input s (a + int (length m))
         \<and> Span_content (Span s a (a + int (length m))) = m"
proof -
  from assms have "Parser_map (Parser_spanned (tag m)) (\<lambda>x. py_index x 1) (Input s a)
      = returns (ROk v c)"
    by (simp add: Parser_span_def Parser_right_def Parser_index_def)
  from map_ok [OF this] obtain t where sp: "Parser_spanned (tag m) (Input s a) = returns (ROk t c)"
    and ix: "py_index t 1 = Inr v" by blast
  have tg: "tag m (Input s a) = returns (ROk (VStr m) (Input s (a + int (length m))))"
    and cur: "py_slice s a (a + int (length m)) = m"
    using sp by (auto simp: Parser_spanned_def tag_def split: if_splits)
  from sp tg have "t = VTuple [VStr m, VSpan (Span s a (a + int (length m)))]"
    and "c = Input s (a + int (length m))"
    by (simp_all add: Parser_spanned_def)
  with ix cur show ?thesis by (simp add: py_item_pair)
qed

lemma space_nonneg:
  assumes "0 \<le> i"
  shows "space (Input s i) =
     (if i < int (length s) \<and> isspace (s ! nat i)
      then returns (ROk (VStr [s ! nat i]) (Input s (i + 1))) else returns RNone)"
proof (cases "i < int (length s)")
  case False
  then show ?thesis
    by (simp add: space_def pred_def Parser_pred_def one_def)
next
  case True
  with assms have "nat i < length s" by simp
  then have "take (Suc 0) (drop (nat i) s) = [s ! nat i]"
    by (simp add: take_Suc_conv_app_nth)
  with py_slice_nonneg [OF assms, of 1 s] have "py_slice s i (i + 1) = [s ! nat i]"
    by simp
  with True show ?thesis
    by (simp add: space_def pred_def Parser_pred_def one_def)
qed

lemma many0_space_run:
  assumes "0 \<le> i"
  shows "many0_loop space xs (Input s i) =
     returns (ROk (VList (xs @ map (\<lambda>c. VStr [c]) (takeWhile isspace (drop (nat i) s))))
                  (Input s (skip_space s i)))"
  using assms
proof (induction ys \<equiv> "drop (nat i) s" arbitrary: i xs)
  case Nil
  then have "\<not> i < int (length s)" by simp
  with Nil show ?case
    by (subst many0_loop.simps) (simp add: space_nonneg skip_space_def)
next
  case (Cons c ys)
  from Cons.hyps(2) have lt: "nat i < length s"
    by (metis drop_eq_Nil2 list.distinct(1) not_le)
  with Cons.hyps(2) have c: "s ! nat i = c"
    by (metis Cons_nth_drop_Suc list.inject)
  from Cons.hyps(2) lt have ys: "ys = drop (nat (i + 1)) s"
    using Cons.prems by (metis Cons_nth_drop_Suc Suc_nat_eq_nat_zadd1 add.commute list.inject)
  from lt Cons.prems have ilt: "i < int (length s)" by simp
  show ?case
  proof (cases "isspace c")
    case False
    with ilt c Cons.prems Cons.hyps(2) [symmetric] show ?thesis
      by (subst many0_loop.simps) (simp add: space_nonneg skip_space_def)
  next
    case True
    from Cons.prems have "0 \<le> i + 1" by simp
    from Cons.hyps(1) [OF ys this, of "xs @ [VStr [c]]"]
    have "many0_loop space (xs @ [VStr [c]]) (Input s (i + 1)) =
       returns (ROk (VList (xs @ [VStr [c]] @ map (\<lambda>c. VStr [c]) (takeWhile isspace ys)))
                  (Input s (skip_space s (i + 1))))"
      using ys by simp
    moreover have "skip_space s (i + 1) = skip_space s i"
      using True ys Cons.hyps(2) [symmetric] by (simp add: skip_space_def)
    ultimately show ?thesis
      using True ilt c Cons.prems Cons.hyps(2) [symmetric]
      by (subst many0_loop.simps) (simp add: space_nonneg)
  qed
qed

lemma ws_nonneg:
  assumes "0 \<le> i"
  shows "ws (Input s i) =
     returns (ROk (VList (map (\<lambda>c. VStr [c]) (takeWhile isspace (drop (nat i) s))))
                  (Input s (skip_space s i)))"
  using many0_space_run [OF assms, of "[]" s] by (simp add: ws_def Parser_many0_def)

lemma skip_space_ge: "i \<le> skip_space s i"
  by (simp add: skip_space_def)

lemma tag_nonneg:
  assumes "0 \<le> i"
  shows "tag m (Input s i) =
     (if prefix m (drop (nat i) s) then returns (ROk (VStr m) (Input s (i + int (length m))))
      else returns RNone)"
  using curr_eq_prefix [OF assms, of s m] by (simp add: tag_def)

lemma ws_ok:
  assumes "ws (Input s i) = returns (ROk w c)"
  shows "\<exists>j. c = Input s j \<and> i \<le> j"
  using advancingD [OF advancing_ws assms] by (cases c) simp

text \<open>
  C10. When \<open>kw m\<close> succeeds, its value is a span of exactly the length of \<open>m\<close> whose
  content is \<open>m\<close>. The span starts where the whitespace skipped from the cursor ends, and
  the resulting cursor is where the whitespace skipped after the span ends: neither run of
  whitespace is part of the span. From a non-negative offset these are the ends of the
  runs of whitespace in the text.
\<close>

theorem kw_span:
  assumes "kw m (Input s i) = returns (ROk v c)"
  shows "\<exists>a j. v = VSpan (Span s a (a + int (length m)))
     \<and> Span_content (Span s a (a + int (length m))) = m
     \<and> c = Input s j \<and> i \<le> a \<and> a + int (length m) \<le> j
     \<and> (\<exists>w. ws (Input s i) = returns (ROk w (Input s a)))
     \<and> (\<exists>w. ws (Input s (a + int (length m))) = returns (ROk w (Input s j)))
     \<and> (0 \<le> i \<longrightarrow> a = skip_space s i \<and> j = skip_space s (a + int (length m)))"
proof -
  from assms have "Parser_pos (Parser_neg (Parser_span (tag m))) (Input s i) = returns (ROk v c)"
    by (simp add: kw_def)
  from pos_ok [OF this] obtain s1 w1 where w1: "ws (Input s i) = returns (ROk w1 s1)"
    and n: "Parser_neg (Parser_span (tag m)) s1 = returns (ROk v c)" by blast
  from ws_ok [OF w1] obtain a where s1: "s1 = Input s a" and ia: "i \<le> a" by blast
  from neg_ok [OF n] obtain s2 w2 where sp: "Parser_span (tag m) s1 = returns (ROk v s2)"
    and w2: "ws s2 = returns (ROk w2 c)" by blast
  from span_tag_ok [OF sp [unfolded s1]]
  have v: "v = VSpan (Span s a (a + int (length m)))"
    and s2: "s2 = Input s (a + int (length m))"
    and content: "Span_content (Span s a (a + int (length m))) = m" by simp_all
  from ws_ok [OF w2 [unfolded s2]] obtain j where c: "c = Input s j"
    and bj: "a + int (length m) \<le> j" by blast
  have pos: "a = skip_space s i \<and> j = skip_space s (a + int (length m))" if "0 \<le> i"
  proof -
    from that w1 s1 have a: "a = skip_space s i"
      by (simp add: ws_nonneg)
    from that ia have "0 \<le> a + int (length m)" by simp
    with w2 s2 c have "j = skip_space s (a + int (length m))"
      by (simp add: ws_nonneg)
    with a show ?thesis by simp
  qed
  from w1 s1 have r1: "\<exists>w. ws (Input s i) = returns (ROk w (Input s a))" by blast
  from w2 s2 c have r2: "\<exists>w. ws (Input s (a + int (length m))) = returns (ROk w (Input s j))"
    by blast
  from v content c ia bj r1 r2 pos show ?thesis by blast
qed

theorem kw_span_witness:
  "kw ''if'' (Input '' if  x'' 0) = returns (ROk (VSpan (Span '' if  x'' 1 3)) (Input '' if  x'' 5))
   \<and> Span_content (Span '' if  x'' 1 3) = ''if''
   \<and> skip_space '' if  x'' 0 = 1 \<and> skip_space '' if  x'' 3 = 5"
proof -
  have e: "kw ''if'' (Input '' if  x'' 0)
      = returns (ROk (VSpan (Span '' if  x'' 1 3)) (Input '' if  x'' 5))"
    by code_simp
  from kw_span [OF e] obtain a j where "VSpan (Span '' if  x'' 1 3) = VSpan (Span '' if  x'' a (a + int (length ''if'')))"
    and "Span_content (Span '' if  x'' a (a + int (length ''if''))) = ''if''"
    and "Input '' if  x'' 5 = Input '' if  x'' j"
    and "(0::int) \<le> 0 \<longrightarrow> a = skip_space '' if  x'' 0 \<and> j = skip_space '' if  x'' (a + int (length ''if''))"
    by blast
  with e show ?thesis by simp
qed

text \<open>
  The keyword does succeed whenever the literal follows the leading whitespace.
\<close>

lemma kw_succeeds:
  assumes "0 \<le> i" and "prefix m (drop (nat (skip_space s i)) s)"
  shows "kw m (Input s i) =
     returns (ROk (VSpan (Span s (skip_space s i) (skip_space s i + int (length m))))
                  (Input s (skip_space s (skip_space s i + int (length m)))))"
proof -
  from assms(1) have a: "0 \<le> skip_space s i"
    using skip_space_ge [of i s] by simp
  then have b: "0 \<le> skip_space s i + int (length m)" by simp
  have t: "tag m (Input s (skip_space s i))
      = returns (ROk (VStr m) (Input s (skip_space s i + int (length m))))"
    using assms(2) by (simp add: tag_nonneg [OF a])
  have sp: "Parser_span (tag m) (Input s (skip_space s i))
      = returns (ROk (VSpan (Span s (skip_space s i) (skip_space s i + int (length m))))
          (Input s (skip_space s i + int (length m))))"
    by (simp add: Parser_span_def Parser_right_def Parser_index_def Parser_map_def
        Parser_spanned_def t py_item_pair)
  have ng: "Parser_neg (Parser_span (tag m)) (Input s (skip_space s i))
      = returns (ROk (VSpan (Span s (skip_space s i) (skip_space s i + int (length m))))
          (Input s (skip_space s (skip_space s i + int (length m)))))"
    by (simp add: Parser_neg_def Parser_lshift_def Parser_left_def Parser_index_def
        Parser_map_def Parser_mul_def sp ws_nonneg [OF b] py_item_pair)
  show ?thesis
    by (simp add: kw_def Parser_pos_def Parser_rshift_def Parser_right_def Parser_index_def
        Parser_map_def Parser_mul_def ng ws_nonneg [OF assms(1)] py_item_pair)
qed

section \<open>Sequences with whitespace skipped\<close>

lemma neg_eval:
  "Parser_neg p s =
     (case p s of
        None \<Rightarrow> None
      | Some (Inl e) \<Rightarrow> raises e
      | Some (Inr (ROk x s1)) \<Rightarrow>
          (case ws s1 of
             None \<Rightarrow> None
           | Some (Inl e) \<Rightarrow> raises e
           | Some (Inr (ROk w s2)) \<Rightarrow> returns (ROk x s2)
           | Some (Inr _) \<Rightarrow> returns RNone)
      | Some (Inr _) \<Rightarrow> returns RNone)"
  by (simp add: Parser_neg_def Parser_lshift_def Parser_left_def Parser_index_def
      Parser_map_def Parser_mul_def py_item_pair
      split: option.splits sum.splits result.splits)

lemma pos_eval:
  "Parser_pos p s =
     (case ws s of
        None \<Rightarrow> None
      | Some (Inl e) \<Rightarrow> raises e
      | Some (Inr (ROk w s1)) \<Rightarrow>
          (case p s1 of
             None \<Rightarrow> None
           | Some (Inl e) \<Rightarrow> raises e
           | Some (Inr (ROk y s2)) \<Rightarrow> returns (ROk y s2)
           | Some (Inr _) \<Rightarrow> returns RNone)
      | Some (Inr _) \<Rightarrow> returns RNone)"
  by (simp add: Parser_pos_def Parser_rshift_def Parser_right_def Parser_index_def
      Parser_map_def Parser_mul_def py_item_pair
      split: option.splits sum.splits result.splits)

lemma neg_ok_iff:
  "Parser_neg p s = returns (ROk x c) \<longleftrightarrow>
     (\<exists>s1 w. p s = returns (ROk x s1) \<and> ws s1 = returns (ROk w c))"
  by (auto simp: neg_eval split: option.splits sum.splits result.splits)

lemma pos_ok_iff:
  "Parser_pos p s = returns (ROk v c) \<longleftrightarrow>
     (\<exists>w s1. ws s = returns (ROk w s1) \<and> p s1 = returns (ROk v c))"
  by (auto simp: pos_eval split: option.splits sum.splits result.splits)

lemma elements_ws_Cons:
  "elements_ws (p # ps) s vs c \<longleftrightarrow>
     (\<exists>x s1 w s2 vs'. p s = returns (ROk x s1) \<and> ws s1 = returns (ROk w s2)
        \<and> vs = x # vs' \<and> elements_ws ps s2 vs' c)"
proof (cases "succeeds (p s)")
  case False
  then show ?thesis
    by (auto simp: succeeds_def split: option.splits sum.splits result.splits)
next
  case True
  then obtain x s1 where p: "p s = returns (ROk x s1)"
    by (auto simp: succeeds_iff)
  show ?thesis
  proof (cases "succeeds (ws s1)")
    case False
    with p show ?thesis
      by (auto simp: succeeds_def split: option.splits sum.splits result.splits)
  next
    case True
    then obtain w s2 where w: "ws s1 = returns (ROk w s2)"
      by (auto simp: succeeds_iff)
    with p show ?thesis
      by (cases vs) auto
  qed
qed

lemma seq_loop_Cons_iff:
  "seq_loop (p # ps) acc s = returns (ROk v c) \<longleftrightarrow>
     (\<exists>x s1. p s = returns (ROk x s1) \<and> seq_loop ps (acc @ [x]) s1 = returns (ROk v c))"
proof
  assume "seq_loop (p # ps) acc s = returns (ROk v c)"
  from seq_loop_Cons_ok [OF this]
  show "\<exists>x s1. p s = returns (ROk x s1) \<and> seq_loop ps (acc @ [x]) s1 = returns (ROk v c)" .
next
  assume "\<exists>x s1. p s = returns (ROk x s1) \<and> seq_loop ps (acc @ [x]) s1 = returns (ROk v c)"
  then show "seq_loop (p # ps) acc s = returns (ROk v c)"
    by auto
qed

lemma seq_loop_neg:
  "seq_loop (map Parser_neg ps) acc s = returns (ROk v c) \<longleftrightarrow>
     (\<exists>vs. v = VTuple (acc @ vs) \<and> elements_ws ps s vs c)"
proof (induction ps arbitrary: acc s)
  case Nil
  show ?case by auto
next
  case (Cons p ps)
  have "seq_loop (map Parser_neg (p # ps)) acc s = returns (ROk v c) \<longleftrightarrow>
      (\<exists>x s2. Parser_neg p s = returns (ROk x s2)
         \<and> seq_loop (map Parser_neg ps) (acc @ [x]) s2 = returns (ROk v c))"
    by (simp only: list.map seq_loop_Cons_iff)
  also have "\<dots> \<longleftrightarrow>
      (\<exists>x s2. (\<exists>s1 w. p s = returns (ROk x s1) \<and> ws s1 = returns (ROk w s2))
         \<and> (\<exists>vs'. v = VTuple ((acc @ [x]) @ vs') \<and> elements_ws ps s2 vs' c))"
    by (simp only: neg_ok_iff Cons.IH)
  also have "\<dots> \<longleftrightarrow> (\<exists>vs. v = VTuple (acc @ vs) \<and> elements_ws (p # ps) s vs c)"
    unfolding elements_ws_Cons by (simp only: append_assoc append.simps) blast
  finally show ?case .
qed

lemma neg_tag_nonneg:
  assumes "0 \<le> a"
  shows "Parser_neg (tag m) (Input s a) =
     (if prefix m (drop (nat a) s)
      then returns (ROk (VStr m) (Input s (skip_space s (a + int (length m)))))
      else returns RNone)"
proof -
  from assms have b: "0 \<le> a + int (length m)" by simp
  show ?thesis
    by (simp add: neg_eval tag_nonneg [OF assms] ws_nonneg [OF b])
qed

lemma skip_space_nonneg: "0 \<le> a \<Longrightarrow> 0 \<le> skip_space s a"
  using skip_space_ge [of a s] by simp

lemma seq_loop_tags:
  assumes "0 \<le> a"
  shows "seq_loop (map Parser_neg (map tag ms)) acc (Input s a) =
     (case literals_ws ms s a of
        Some j \<Rightarrow> returns (ROk (VTuple (acc @ map VStr ms)) (Input s j))
      | None \<Rightarrow> returns RNone)"
  using assms
proof (induction ms arbitrary: a acc)
  case Nil
  show ?case by simp
next
  case (Cons m ms)
  from Cons.prems have "0 \<le> skip_space s (a + int (length m))"
    by (simp add: skip_space_nonneg)
  from Cons.IH [OF this, of "acc @ [VStr m]"] show ?case
    by (simp add: neg_tag_nonneg [OF Cons.prems] split: option.splits)
qed

lemma seqws_tags:
  assumes "0 \<le> i"
  shows "seqws (map tag ms) (Input s i) =
     (case literals_ws ms s (skip_space s i) of
        Some j \<Rightarrow> returns (ROk (VTuple (map VStr ms)) (Input s j))
      | None \<Rightarrow> returns RNone)"
proof -
  from assms have "0 \<le> skip_space s i" by (rule skip_space_nonneg)
  from seq_loop_tags [OF this, of ms "[]" s] show ?thesis
    by (simp add: seqws_def pos_eval ws_nonneg [OF assms] seq_def split: option.splits)
qed

lemma seqws_elements:
  "seqws ps s0 = returns (ROk v c) \<longleftrightarrow>
     (\<exists>w s1 vs. ws s0 = returns (ROk w s1) \<and> elements_ws ps s1 vs c \<and> v = VTuple vs)"
proof -
  have "seq (map Parser_neg ps) s1 = returns (ROk v c) \<longleftrightarrow>
      (\<exists>vs. v = VTuple vs \<and> elements_ws ps s1 vs c)" for s1
    using seq_loop_neg [of ps "[]" s1 v c] by (simp add: seq_def)
  then show ?thesis
    unfolding seqws_def pos_ok_iff by blast
qed

text \<open>
  C8. \<open>seqws ps\<close> succeeds exactly when, after the whitespace skipped at the cursor, the
  elements match in order, each followed by skipped whitespace; its value is the tuple of
  their values and its cursor the one reached. On literals from a non-negative offset
  this is decided by the text: the leading run of whitespace is skipped, each literal
  must follow, and the run of whitespace after each literal is skipped. In particular
  the three literals on the nine characters \<^verbatim>\<open>x  y  z  \<close> give the triple of the
  literals and the cursor at offset 9, the end of the input.
\<close>

theorem seqws_in_order:
  "(seqws ps s0 = returns (ROk v c) \<longleftrightarrow>
      (\<exists>w s1 vs. ws s0 = returns (ROk w s1) \<and> elements_ws ps s1 vs c \<and> v = VTuple vs))
   \<and> (0 \<le> i \<longrightarrow>
        seqws (map tag ms) (Input s i) =
          (case literals_ws ms s (skip_space s i) of
             Some j \<Rightarrow> returns (ROk (VTuple (map VStr ms)) (Input s j))
           | None \<Rightarrow> returns RNone))
   \<and> seqws [tag ''x'', tag ''y'', tag ''z''] (Input ''x  y  z  '' 0)
        = returns (ROk (VTuple [VStr ''x'', VStr ''y'', VStr ''z'']) (Input ''x  y  z  '' 9))
   \<and> int (length ''x  y  z  '') = 9"
proof -
  have "seqws [tag ''x'', tag ''y'', tag ''z''] (Input ''x  y  z  '' 0)
        = returns (ROk (VTuple [VStr ''x'', VStr ''y'', VStr ''z'']) (Input ''x  y  z  '' 9))"
    by code_simp
  with seqws_elements [of ps s0 v c] seqws_tags [of i ms s] show ?thesis
    by simp
qed

theorem seqws_in_order_witness:
  "(0::int) \<le> 0
   \<and> literals_ws [''x'', ''y''] ''  x y '' (skip_space ''  x y '' 0) = Some 6
   \<and> seqws (map tag [''x'', ''y'']) (Input ''  x y '' 0)
        = returns (ROk (VTuple (map VStr [''x'', ''y''])) (Input ''  x y '' 6))
   \<and> literals_ws [''x'', ''y''] ''x z'' (skip_space ''x z'' 0) = None
   \<and> seqws (map tag [''x'', ''y'']) (Input ''x z'' 0) = returns RNone
   \<and> (\<exists>w s1. ws (Input ''  x y '' 0) = returns (ROk w s1)
         \<and> elements_ws [tag ''x'', tag ''y''] s1 [VStr ''x'', VStr ''y''] (Input ''  x y '' 6))"
proof -
  have l1: "literals_ws [''x'', ''y''] ''  x y '' (skip_space ''  x y '' 0) = Some 6"
    by code_simp
  have l2: "literals_ws [''x'', ''y''] ''x z'' (skip_space ''x z'' 0) = None"
    by code_simp
  have z: "(0::int) \<le> 0" by simp
  note t1 = seqws_in_order [of "[tag ''x'', tag ''y'']" "Input ''  x y '' 0"
      "VTuple [VStr ''x'', VStr ''y'']" "Input ''  x y '' 6" 0 "[''x'', ''y'']" "''  x y ''"]
  note t2 = seqws_in_order [of "[]" "Input [] 0" VNone "Input [] 0" 0 "[''x'', ''y'']" "''x z''"]
  from t1 l1 z have e1: "seqws (map tag [''x'', ''y'']) (Input ''  x y '' 0)
        = returns (ROk (VTuple (map VStr [''x'', ''y''])) (Input ''  x y '' 6))"
    by simp
  from t2 l2 z have e2: "seqws (map tag [''x'', ''y'']) (Input ''x z'' 0) = returns RNone"
    by simp
  from e1 t1 have e3: "\<exists>w s1. ws (Input ''  x y '' 0) = returns (ROk w s1)
         \<and> elements_ws [tag ''x'', tag ''y''] s1 [VStr ''x'', VStr ''y''] (Input ''  x y '' 6)"
    by auto
  from z l1 e1 l2 e2 e3 show ?thesis by blast
qed

end
